theory Spec2Isabelle
  imports Complex_Main "HOL-Library.Multiset"
begin

section \<open>The Kemp Brdy bullet engine (kemp_brdy_engine.py)\<close>

text \<open>
  A shallow embedding of class \<^verbatim>\<open>KempBrdyEngine\<close>. The chess rules come from the
  python-chess library, which is not part of the repository: the board is a type
  parameter \<open>'b\<close> and the operations the engine calls on it are the fields of an
  \<open>adapter\<close> record. Python's leading underscores are dropped from the method names
  (\<^verbatim>\<open>_evaluate_move\<close> is \<open>evaluate_move\<close>). Python floats are read as exact reals.
  Mutation of the board and the global random generator is explicit state passing.
\<close>

subsection \<open>Data of python-chess the engine reads\<close>

datatype color = WHITE | BLACK

datatype piece_type = PAWN | KNIGHT | BISHOP | ROOK | QUEEN | KING

record piece =
  piece_type :: piece_type
  color :: color

text \<open>Squares are the integers 0..63 (\<^verbatim>\<open>A1 = 0\<close>, \<^verbatim>\<open>B1 = 1\<close>, ..., \<^verbatim>\<open>H8 = 63\<close>).\<close>

type_synonym square = nat

definition B1 :: square where "B1 = 1"
definition C1 :: square where "C1 = 2"
definition E1 :: square where "E1 = 4"
definition F1 :: square where "F1 = 5"
definition G1 :: square where "G1 = 6"
definition D4 :: square where "D4 = 27"
definition E4 :: square where "E4 = 28"
definition D5 :: square where "D5 = 35"
definition E5 :: square where "E5 = 36"
definition B8 :: square where "B8 = 57"
definition C8 :: square where "C8 = 58"
definition E8 :: square where "E8 = 60"
definition F8 :: square where "F8 = 61"
definition G8 :: square where "G8 = 62"

text \<open>\<^verbatim>\<open>chess.square_rank(sq)\<close> is \<^verbatim>\<open>sq >> 3\<close>.\<close>

definition square_rank :: "square \<Rightarrow> nat" where
  "square_rank sq = sq div 8"

record move =
  from_square :: square
  to_square :: square
  promotion :: "piece_type option"

text \<open>
  \<^verbatim>\<open>Move.__bool__\<close>: only the null move (a1a1 without promotion) is falsy. The engine
  tests the opening-book move with \<^verbatim>\<open>if opening_move:\<close>.
\<close>

definition move_truthy :: "move \<Rightarrow> bool" where
  "move_truthy m \<longleftrightarrow> \<not> (from_square m = 0 \<and> to_square m = 0 \<and> promotion m = None)"

text \<open>
  The board operations the engine calls. \<open>push\<close> and \<open>pop\<close> return the mutated board;
  \<open>parse_san\<close> is \<open>None\<close> where python-chess raises \<^verbatim>\<open>ValueError\<close>.
\<close>

record 'b adapter =
  legal_moves :: "'b \<Rightarrow> move list"
  push :: "'b \<Rightarrow> move \<Rightarrow> 'b"
  pop :: "'b \<Rightarrow> 'b"
  is_check :: "'b \<Rightarrow> bool"
  is_checkmate :: "'b \<Rightarrow> bool"
  piece_at :: "'b \<Rightarrow> square \<Rightarrow> piece option"
  turn :: "'b \<Rightarrow> color"
  move_stack :: "'b \<Rightarrow> move list"
  parse_san :: "'b \<Rightarrow> string \<Rightarrow> move option"

text \<open>
  \<^verbatim>\<open>board.piece_map()\<close>: the dictionary from the occupied squares to their pieces, which
  python-chess builds from the 64 squares, highest square first.
\<close>

definition piece_map :: "'b adapter \<Rightarrow> 'b \<Rightarrow> (square \<times> piece) list" where
  "piece_map A board =
     concat (map (\<lambda>sq. case piece_at A board sq of None \<Rightarrow> [] | Some p \<Rightarrow> [(sq, p)])
                 (rev [0..<64]))"

subsection \<open>Exceptions and the random generator\<close>

datatype py_error = IndexError | KeyError

definition try_bind :: "py_error + 'a \<Rightarrow> ('a \<Rightarrow> py_error + 'c) \<Rightarrow> py_error + 'c" where
  "try_bind r f = (case r of Inl e \<Rightarrow> Inl e | Inr v \<Rightarrow> f v)"

text \<open>
  The state of Python's global \<^verbatim>\<open>random\<close> generator is the list of the raw draws it
  will make (0 once the list is used up). \<^verbatim>\<open>_randbelow(n)\<close> yields a number below \<open>n\<close>,
  \<^verbatim>\<open>random()\<close> a multiple of \<open>2\<^sup>-\<^sup>5\<^sup>3\<close> in \<open>[0, 1)\<close>.
\<close>

type_synonym rng = "nat list"

definition randbelow :: "nat \<Rightarrow> rng \<Rightarrow> nat \<times> rng" where
  "randbelow n g = (case g of [] \<Rightarrow> (0, []) | d # g' \<Rightarrow> (d mod n, g'))"

definition random_unit :: "rng \<Rightarrow> real \<times> rng" where
  "random_unit g =
     (case g of [] \<Rightarrow> (0, []) | d # g' \<Rightarrow> (real (d mod 2 ^ 53) / 2 ^ 53, g'))"

text \<open>\<^verbatim>\<open>random.uniform(a, b)\<close> is \<^verbatim>\<open>a + (b - a) * random()\<close>.\<close>

definition uniform :: "real \<Rightarrow> real \<Rightarrow> rng \<Rightarrow> real \<times> rng" where
  "uniform a b g = (case random_unit g of (u, g') \<Rightarrow> (a + (b - a) * u, g'))"

text \<open>\<^verbatim>\<open>random.choice(seq)\<close> is \<^verbatim>\<open>seq[_randbelow(len(seq))]\<close>; IndexError on an empty one.\<close>

definition choice :: "'a list \<Rightarrow> rng \<Rightarrow> (py_error + 'a) \<times> rng" where
  "choice xs g =
     (if xs = [] then (Inl IndexError, g)
      else case randbelow (length xs) g of (i, g') \<Rightarrow> (Inr (xs ! i), g'))"

text \<open>
  \<^verbatim>\<open>random.shuffle(x)\<close>:
  \<^verbatim>\<open>for i in reversed(range(1, len(x))): j = randbelow(i + 1); x[i], x[j] = x[j], x[i]\<close>
\<close>

primrec shuffle_from :: "nat \<Rightarrow> 'a list \<Rightarrow> rng \<Rightarrow> 'a list \<times> rng" where
  "shuffle_from 0 xs g = (xs, g)"
| "shuffle_from (Suc k) xs g =
     (case randbelow (Suc k + 1) g of
        (j, g') \<Rightarrow> shuffle_from k (xs[Suc k := xs ! j, j := xs ! Suc k]) g')"

definition shuffle :: "'a list \<Rightarrow> rng \<Rightarrow> 'a list \<times> rng" where
  "shuffle xs g = shuffle_from (length xs - 1) xs g"

subsection \<open>The engine object\<close>

record engine =
  difficulty :: int
  time_limit :: real
  max_thinking_time :: real
  opening_repertoire :: "(string \<times> string list list) list"
  tactical_weights :: "(string \<times> real) list"

text \<open>\<^verbatim>\<open>__init__\<close> (lines 13-59).\<close>

definition init :: "int \<Rightarrow> engine" where
  "init difficulty_level =
     \<lparr> difficulty = difficulty_level,
       time_limit = 1 / 10,
       max_thinking_time = 1 / 2,
       opening_repertoire =
         [(''white'',
             [[''e3'', ''e5'', ''Bc4'', ''Nc6'', ''Qf3'', ''Nf6''],
              [''e4'', ''e6'', ''Nf3'', ''d5'', ''exd5'', ''Qxd5''],
              [''e3'', ''e5'', ''Bc4'', ''d5'', ''Bb3'', ''Nf6''],
              [''e3'', ''g6'', ''Bc4'', ''Bg7'', ''Qf3'', ''e6''],
              [''e3'', ''d5'', ''c4'', ''e6'', ''cxd5'', ''exd5'']]),
          (''black'',
             [[''e4'', ''e6'', ''Nf3'', ''d5'', ''exd5'', ''Qxd5''],
              [''e4'', ''c5'', ''Nf3'', ''d6'', ''d4'', ''cxd4''],
              [''e4'', ''c6'', ''d4'', ''d5'', ''exd5'', ''cxd5'']])],
       tactical_weights =
         [(''check'', 8 / 10),
          (''checkmate'', 1),
          (''capture_queen'', 9 / 10),
          (''capture_bishop'', 7 / 10),
          (''capture_knight'', 7 / 10),
          (''castling'', 6 / 10),
          (''development'', 8 / 10),
          (''center_control'', 7 / 10),
          (''aggression'', 9 / 10)] \<rparr>"

text \<open>\<^verbatim>\<open>self.tactical_weights[key]\<close>: KeyError when the key is missing.\<close>

definition weight :: "engine \<Rightarrow> string \<Rightarrow> py_error + real" where
  "weight self key =
     (case map_of (tactical_weights self) key of None \<Rightarrow> Inl KeyError | Some w \<Rightarrow> Inr w)"

subsection \<open>Helpers of the move evaluator\<close>

text \<open>\<^verbatim>\<open>_get_piece_value\<close> (lines 200-210).\<close>

definition get_piece_value :: "piece \<Rightarrow> int" where
  "get_piece_value p =
     (case piece_type p of
        PAWN \<Rightarrow> 1 | KNIGHT \<Rightarrow> 3 | BISHOP \<Rightarrow> 3 | ROOK \<Rightarrow> 5 | QUEEN \<Rightarrow> 9 | KING \<Rightarrow> 0)"

text \<open>\<^verbatim>\<open>_get_piece_type\<close> (lines 212-222).\<close>

definition get_piece_type :: "piece \<Rightarrow> string" where
  "get_piece_type p =
     (case piece_type p of
        PAWN \<Rightarrow> ''capture_pawn'' | KNIGHT \<Rightarrow> ''capture_knight''
      | BISHOP \<Rightarrow> ''capture_bishop'' | ROOK \<Rightarrow> ''capture_rook''
      | QUEEN \<Rightarrow> ''capture_queen'' | KING \<Rightarrow> ''capture_king'')"

text \<open>\<^verbatim>\<open>_is_development_move\<close> (lines 224-237).\<close>

definition is_development_move :: "'b adapter \<Rightarrow> 'b \<Rightarrow> move \<Rightarrow> bool" where
  "is_development_move A board mv =
     (case piece_at A board (from_square mv) of
        None \<Rightarrow> False
      | Some p \<Rightarrow>
          if piece_type p \<in> set [KNIGHT, BISHOP] then
            (if color p = WHITE \<and> from_square mv \<in> set [B1, C1, F1, G1] then True
             else if color p = BLACK \<and> from_square mv \<in> set [B8, C8, F8, G8] then True
             else False)
          else False)"

text \<open>\<^verbatim>\<open>_controls_center\<close> (lines 239-242).\<close>

definition controls_center :: "square \<Rightarrow> bool" where
  "controls_center sq \<longleftrightarrow> sq \<in> set [D4, E4, D5, E5]"

text \<open>\<^verbatim>\<open>_is_aggressive_move\<close> (lines 244-251).\<close>

definition is_aggressive_move :: "'b adapter \<Rightarrow> 'b \<Rightarrow> move \<Rightarrow> bool" where
  "is_aggressive_move A board mv =
     (if turn A board = WHITE then square_rank (to_square mv) > square_rank (from_square mv)
      else square_rank (to_square mv) < square_rank (from_square mv))"

text \<open>\<^verbatim>\<open>_evaluate_material\<close> (lines 253-262): the loop over \<^verbatim>\<open>piece_map().items()\<close>.\<close>

fun material_loop :: "(square \<times> piece) list \<Rightarrow> int \<Rightarrow> int" where
  "material_loop [] score = score"
| "material_loop ((sq, p) # rest) score =
     (let v = get_piece_value p
      in if color p = WHITE then material_loop rest (score + v)
         else material_loop rest (score - v))"

definition evaluate_material :: "'b adapter \<Rightarrow> 'b \<Rightarrow> real" where
  "evaluate_material A board = real_of_int (material_loop (piece_map A board) 0)"

text \<open>\<^verbatim>\<open>_evaluate_position\<close> (lines 264-276).\<close>

definition evaluate_position :: "'b adapter \<Rightarrow> 'b \<Rightarrow> real" where
  "evaluate_position A board =
     (let score = (if \<not> is_check A board then 0 + 10 else 0)
      in score + real (length (legal_moves A board)) * (1 / 2))"

subsection \<open>The move evaluator\<close>

text \<open>
  The blocks of the \<^verbatim>\<open>try\<close> body of \<^verbatim>\<open>_evaluate_move\<close>, each giving what it adds to
  \<^verbatim>\<open>score\<close>. \<open>board\<close> is the board the source passes at that point: the one after
  \<^verbatim>\<open>board.push(move)\<close>.
\<close>

text \<open>Lines 149-151, "Check for giving check".\<close>

definition check_bonus :: "'b adapter \<Rightarrow> engine \<Rightarrow> 'b \<Rightarrow> py_error + real" where
  "check_bonus A self board =
     (if is_check A board then try_bind (weight self ''check'') (\<lambda>w. Inr (w * 50))
      else Inr 0)"

text \<open>Lines 153-162, "Piece capture analysis".\<close>

definition capture_bonus :: "'b adapter \<Rightarrow> engine \<Rightarrow> 'b \<Rightarrow> move \<Rightarrow> py_error + real" where
  "capture_bonus A self board mv =
     (case piece_at A board (to_square mv) of
        None \<Rightarrow> Inr 0
      | Some captured_piece \<Rightarrow>
          (let capture_value = get_piece_value captured_piece;
               capture_type = get_piece_type captured_piece
           in case map_of (tactical_weights self) capture_type of
                Some w \<Rightarrow> Inr (w * real_of_int capture_value * 10)
              | None \<Rightarrow> Inr (real_of_int capture_value * 5)))"

text \<open>Lines 164-166, "Development bonus".\<close>

definition development_bonus :: "'b adapter \<Rightarrow> engine \<Rightarrow> 'b \<Rightarrow> move \<Rightarrow> py_error + real" where
  "development_bonus A self board mv =
     (if is_development_move A board mv
      then try_bind (weight self ''development'') (\<lambda>w. Inr (w * 15))
      else Inr 0)"

text \<open>Lines 168-170, "Center control bonus".\<close>

definition center_bonus :: "engine \<Rightarrow> move \<Rightarrow> py_error + real" where
  "center_bonus self mv =
     (if controls_center (to_square mv)
      then try_bind (weight self ''center_control'') (\<lambda>w. Inr (w * 10))
      else Inr 0)"

text \<open>Lines 172-174, "Castling bonus".\<close>

definition castling_bonus :: "engine \<Rightarrow> move \<Rightarrow> py_error + real" where
  "castling_bonus self mv =
     (if from_square mv \<in> set [E1, E8] \<and> to_square mv \<in> set [G1, C1, G8, C8]
      then try_bind (weight self ''castling'') (\<lambda>w. Inr (w * 20))
      else Inr 0)"

text \<open>Lines 176-178, "Aggression bonus".\<close>

definition aggression_bonus :: "'b adapter \<Rightarrow> engine \<Rightarrow> 'b \<Rightarrow> move \<Rightarrow> py_error + real" where
  "aggression_bonus A self board mv =
     (if is_aggressive_move A board mv
      then try_bind (weight self ''aggression'') (\<lambda>w. Inr (w * 12))
      else Inr 0)"

text \<open>Lines 180-184, "Queen activity bonus".\<close>

definition queen_bonus :: "'b adapter \<Rightarrow> 'b \<Rightarrow> move \<Rightarrow> real" where
  "queen_bonus A board mv =
     (case piece_at A board (from_square mv) of
        None \<Rightarrow> 0
      | Some p \<Rightarrow>
          if piece_type p = QUEEN
          then (if controls_center (to_square mv) then 8 + 5 else 8)
          else 0)"

text \<open>
  Lines 149-190: the \<^verbatim>\<open>try\<close> body after the checkmate test, from \<^verbatim>\<open>score = 0.0\<close>. The
  first KeyError ends it.
\<close>

definition score_terms :: "'b adapter \<Rightarrow> engine \<Rightarrow> 'b \<Rightarrow> move \<Rightarrow> py_error + real" where
  "score_terms A self board mv =
     try_bind (check_bonus A self board) (\<lambda>s1.
     try_bind (capture_bonus A self board mv) (\<lambda>s2.
     try_bind (development_bonus A self board mv) (\<lambda>s3.
     try_bind (center_bonus self mv) (\<lambda>s4.
     try_bind (castling_bonus self mv) (\<lambda>s5.
     try_bind (aggression_bonus A self board mv) (\<lambda>s6.
       Inr (0 + s1 + s2 + s3 + s4 + s5 + s6 + queen_bonus A board mv
            + evaluate_material A board + evaluate_position A board)))))))"

text \<open>
  \<^verbatim>\<open>_evaluate_move\<close> (lines 135-198). The result is the score or the exception, the
  board as the call leaves it, and the generator. The \<^verbatim>\<open>finally: board.pop()\<close> runs on
  each of the three ways out of the \<^verbatim>\<open>try\<close>: the checkmate \<^verbatim>\<open>return\<close> (which skips the
  perturbation of line 196), an exception, and the normal end.
\<close>

definition evaluate_move ::
  "'b adapter \<Rightarrow> engine \<Rightarrow> 'b \<Rightarrow> move \<Rightarrow> rng \<Rightarrow> (py_error + real) \<times> 'b \<times> rng" where
  "evaluate_move A self board mv g =
     (let board1 = push A board mv in
      if is_checkmate A board1 then
        (try_bind (weight self ''checkmate'') (\<lambda>w. Inr (1000 + w * 100)), pop A board1, g)
      else
        case score_terms A self board1 mv of
          Inl e \<Rightarrow> (Inl e, pop A board1, g)
        | Inr score \<Rightarrow>
            (case uniform (- 5) 5 g of
               (u, g') \<Rightarrow>
                 (Inr (score + u * real_of_int (11 - difficulty self)), pop A board1, g')))"

subsection \<open>Opening book and move selection\<close>

text \<open>\<^verbatim>\<open>_get_opening_move\<close> (lines 108-133).\<close>

definition get_opening_move ::
  "'b adapter \<Rightarrow> engine \<Rightarrow> 'b \<Rightarrow> rng \<Rightarrow> (py_error + move option) \<times> rng" where
  "get_opening_move A self board g =
     (let move_count = length (move_stack A board) in
      if move_count > 6 then (Inr None, g)
      else
        let is_white = (turn A board = WHITE) in
        case map_of (opening_repertoire self) (if is_white then ''white'' else ''black'') of
          None \<Rightarrow> (Inl KeyError, g)
        | Some openings \<Rightarrow>
            (case choice openings g of
               (Inl e, g') \<Rightarrow> (Inl e, g')
             | (Inr chosen_opening, g') \<Rightarrow>
                 if move_count < length chosen_opening then
                   (case parse_san A board (chosen_opening ! move_count) of
                      Some m \<Rightarrow> (Inr (Some m), g')
                    | None \<Rightarrow> (Inr None, g'))
                 else (Inr None, g')))"

text \<open>
  \<^verbatim>\<open>_add_randomness\<close> (lines 278-296). \<^verbatim>\<open>random_factor\<close> is computed and never used.
\<close>

definition add_randomness ::
  "engine \<Rightarrow> (real \<times> move) list \<Rightarrow> rng \<Rightarrow> (real \<times> move) list \<times> rng" where
  "add_randomness self scored_moves g =
     (if difficulty self \<ge> 9 then (scored_moves, g)
      else
        case shuffle (take (min 5 (length scored_moves)) scored_moves) g of
          (top_moves, g') \<Rightarrow>
            (if length scored_moves > 5 then top_moves @ drop 5 scored_moves else top_moves,
             g'))"

text \<open>Lines 85-88 of \<^verbatim>\<open>get_move\<close>: the loop scoring every legal move.\<close>

fun score_loop ::
  "'b adapter \<Rightarrow> engine \<Rightarrow> move list \<Rightarrow> 'b \<Rightarrow> rng \<Rightarrow> (real \<times> move) list
     \<Rightarrow> (py_error + (real \<times> move) list) \<times> 'b \<times> rng" where
  "score_loop A self [] board g scored_moves = (Inr scored_moves, board, g)"
| "score_loop A self (mv # rest) board g scored_moves =
     (case evaluate_move A self board mv g of
        (Inl e, board', g') \<Rightarrow> (Inl e, board', g')
      | (Inr score, board', g') \<Rightarrow>
          score_loop A self rest board' g' (scored_moves @ [(score, mv)]))"

text \<open>
  Lines 93-96 of \<^verbatim>\<open>get_move\<close>, "Add randomness based on difficulty":
  \<^verbatim>\<open>if self.difficulty < 7: scored_moves = self._add_randomness(scored_moves)\<close>
\<close>

definition randomize_step ::
  "engine \<Rightarrow> (real \<times> move) list \<Rightarrow> rng \<Rightarrow> (real \<times> move) list \<times> rng" where
  "randomize_step self scored_moves g =
     (if difficulty self < 7 then add_randomness self scored_moves g else (scored_moves, g))"

text \<open>
  Lines 84-96 of \<^verbatim>\<open>get_move\<close>: score, sort by score descending (Python's sort is
  stable, also with \<^verbatim>\<open>reverse=True\<close>), randomize.
\<close>

definition rank_moves ::
  "'b adapter \<Rightarrow> engine \<Rightarrow> 'b \<Rightarrow> move list \<Rightarrow> rng
     \<Rightarrow> (py_error + (real \<times> move) list) \<times> 'b \<times> rng" where
  "rank_moves A self board legal g =
     (case score_loop A self legal board g [] of
        (Inl e, board', g') \<Rightarrow> (Inl e, board', g')
      | (Inr scored_moves, board', g') \<Rightarrow>
          (case randomize_step self (sort_key (\<lambda>x. - fst x) scored_moves) g' of
             (ranked, g'') \<Rightarrow> (Inr ranked, board', g'')))"

text \<open>
  \<^verbatim>\<open>get_move\<close> (lines 61-106). \<open>start_time\<close> and \<open>now\<close> are the two readings of
  \<^verbatim>\<open>time.time()\<close>, at line 71 and at line 102.
\<close>

definition get_move ::
  "'b adapter \<Rightarrow> engine \<Rightarrow> 'b \<Rightarrow> rng \<Rightarrow> real \<Rightarrow> real
     \<Rightarrow> (py_error + move option) \<times> 'b \<times> rng" where
  "get_move A self board g start_time now =
     (case get_opening_move A self board g of
        (Inl e, g1) \<Rightarrow> (Inl e, board, g1)
      | (Inr opening_move, g1) \<Rightarrow>
          if (case opening_move of None \<Rightarrow> False | Some m \<Rightarrow> move_truthy m)
          then (Inr opening_move, board, g1)
          else
            let legal = legal_moves A board in
            if legal = [] then (Inr None, board, g1)
            else
              case rank_moves A self board legal g1 of
                (Inl e, board', g2) \<Rightarrow> (Inl e, board', g2)
              | (Inr [], board', g2) \<Rightarrow> (Inl IndexError, board', g2)
              | (Inr ((best_score, best_move) # _), board', g2) \<Rightarrow>
                  if now - start_time > time_limit self then
                    (case choice legal g2 of
                       (Inl e, g3) \<Rightarrow> (Inl e, board', g3)
                     | (Inr m, g3) \<Rightarrow> (Inr (Some m), board', g3))
                  else (Inr (Some best_move), board', g2))"

subsection \<open>The claims' reading of two steps\<close>

text \<open>
  The material balance as the specification words it: the pieces of the side that made
  the move count positively, the opponent's negatively.
\<close>

definition material_for :: "'b adapter \<Rightarrow> 'b \<Rightarrow> color \<Rightarrow> real" where
  "material_for A board mover =
     real_of_int
       (sum_list (map (\<lambda>(sq, p). if color p = mover then get_piece_value p
                                  else - get_piece_value p)
                      (piece_map A board)))"

text \<open>
  The Randomize step as the specification words it: below difficulty 9 the top five are
  shuffled and the rest appended unchanged, from 9 on the ranking is left alone.
\<close>

definition randomize_spec ::
  "engine \<Rightarrow> (real \<times> move) list \<Rightarrow> rng \<Rightarrow> (real \<times> move) list \<times> rng" where
  "randomize_spec self scored_moves g =
     (if difficulty self < 9 then
        (case shuffle (take 5 scored_moves) g of
           (top_moves, g') \<Rightarrow> (top_moves @ drop 5 scored_moves, g'))
      else (scored_moves, g))"

text \<open>
  Steps 3 to 6 of the Selection Policy as the specification words them: score every legal
  move, rank, randomize below difficulty 9, select the first move of the ranking.
\<close>

definition select_spec :: "'b adapter \<Rightarrow> engine \<Rightarrow> 'b \<Rightarrow> rng \<Rightarrow> py_error + move" where
  "select_spec A self board g =
     (case score_loop A self (legal_moves A board) board g [] of
        (Inl e, board', g') \<Rightarrow> Inl e
      | (Inr scored_moves, board', g') \<Rightarrow>
          (case fst (randomize_spec self (sort_key (\<lambda>x. - fst x) scored_moves) g') of
             [] \<Rightarrow> Inl IndexError
           | (best_score, best_move) # _ \<Rightarrow> Inr best_move))"

subsection \<open>A small board for concrete positions\<close>

text \<open>
  A stand-in for \<^verbatim>\<open>chess.Board\<close> on plain moves (a piece goes from one square to
  another, taking what stands there; no castling, no en passant): the pieces, the side
  to move, the move stack and the stack of saved states that \<^verbatim>\<open>pop\<close> restores.
\<close>

record sboard =
  sb_pieces :: "(square \<times> piece) list"
  sb_turn :: color
  sb_move_stack :: "move list"
  sb_stack :: "((square \<times> piece) list \<times> color) list"

definition sb_piece_at :: "sboard \<Rightarrow> square \<Rightarrow> piece option" where
  "sb_piece_at b sq = (if sq < 64 then map_of (sb_pieces b) sq else None)"

definition opposite :: "color \<Rightarrow> color" where
  "opposite c = (case c of WHITE \<Rightarrow> BLACK | BLACK \<Rightarrow> WHITE)"

definition sb_push :: "sboard \<Rightarrow> move \<Rightarrow> sboard" where
  "sb_push b mv =
     (let moved = (case promotion mv of
                     None \<Rightarrow> sb_piece_at b (from_square mv)
                   | Some t \<Rightarrow> Some \<lparr> piece_type = t, color = sb_turn b \<rparr>);
          others = filter (\<lambda>(sq, p). sq \<noteq> from_square mv \<and> sq \<noteq> to_square mv) (sb_pieces b)
      in \<lparr> sb_pieces = (case moved of None \<Rightarrow> others | Some p \<Rightarrow> (to_square mv, p) # others),
           sb_turn = opposite (sb_turn b),
           sb_move_stack = sb_move_stack b @ [mv],
           sb_stack = sb_stack b @ [(sb_pieces b, sb_turn b)] \<rparr>)"

text \<open>\<^verbatim>\<open>pop\<close> on an empty stack raises in python-chess; the engine only pops what it pushed.\<close>

definition sb_pop :: "sboard \<Rightarrow> sboard" where
  "sb_pop b =
     (case rev (sb_stack b) of
        [] \<Rightarrow> b
      | (ps, t) # _ \<Rightarrow>
          \<lparr> sb_pieces = ps, sb_turn = t,
            sb_move_stack = butlast (sb_move_stack b),
            sb_stack = butlast (sb_stack b) \<rparr>)"

text \<open>
  The answers of the chess rules are tabulated per example: a row gives, for the position
  reached from the example's start by the moves of the key, its legal moves (in the order
  python-chess generates them), whether the side to move is in check, and whether it is
  checkmated. \<open>san\<close> lists the notation of moves; \<open>parse_san\<close> accepts a token only when
  its move is legal on the board.
\<close>

type_synonym rule_table = "(move list \<times> move list \<times> bool \<times> bool) list"

definition table_chess :: "rule_table \<Rightarrow> (string \<times> move) list \<Rightarrow> sboard adapter" where
  "table_chess rules san =
     \<lparr> legal_moves = (\<lambda>b. case map_of rules (sb_move_stack b) of
                              None \<Rightarrow> [] | Some (lm, chk, mate) \<Rightarrow> lm),
       push = sb_push,
       pop = sb_pop,
       is_check = (\<lambda>b. case map_of rules (sb_move_stack b) of
                           None \<Rightarrow> False | Some (lm, chk, mate) \<Rightarrow> chk),
       is_checkmate = (\<lambda>b. case map_of rules (sb_move_stack b) of
                               None \<Rightarrow> False | Some (lm, chk, mate) \<Rightarrow> mate),
       piece_at = sb_piece_at,
       turn = sb_turn,
       move_stack = sb_move_stack,
       parse_san = (\<lambda>b s. case map_of san s of
                             None \<Rightarrow> None
                           | Some m \<Rightarrow>
                               (case map_of rules (sb_move_stack b) of
                                  None \<Rightarrow> None
                                | Some (lm, chk, mate) \<Rightarrow>
                                    if m \<in> set lm then Some m else None)) \<rparr>"

definition mv :: "square \<Rightarrow> square \<Rightarrow> move" where
  "mv f t = \<lparr> from_square = f, to_square = t, promotion = None \<rparr>"

definition pc :: "piece_type \<Rightarrow> color \<Rightarrow> piece" where
  "pc t c = \<lparr> piece_type = t, color = c \<rparr>"

text \<open>
  Bare kings, white Ka1 and black Kh8, white to move. White has Kb2, Ka2, Kb1; after
  each of them black has Kg8, Kh7, Kg7 and is not in check.
\<close>

definition kings_start :: sboard where
  "kings_start =
     \<lparr> sb_pieces = [(0, pc KING WHITE), (63, pc KING BLACK)], sb_turn = WHITE,
       sb_move_stack = [], sb_stack = [] \<rparr>"

definition kings_rules :: rule_table where
  "kings_rules =
     [([], [mv 0 9, mv 0 8, mv 0 1], False, False),
      ([mv 0 9], [mv 63 62, mv 63 55, mv 63 54], False, False),
      ([mv 0 8], [mv 63 62, mv 63 55, mv 63 54], False, False),
      ([mv 0 1], [mv 63 62, mv 63 55, mv 63 54], False, False)]"

definition kings_san :: "(string \<times> move) list" where
  "kings_san = [(''Kb2'', mv 0 9), (''Ka2'', mv 0 8), (''Kb1'', mv 0 1)]"

definition kings_chess :: "sboard adapter" where
  "kings_chess = table_chess kings_rules kings_san"

text \<open>
  White Kg6 and Ra1, black Kg8, white to move. Ra8 is checkmate; after Ra7 black is not
  in check and has Kh8 and Kf8. (The rows of white's other moves are left out.)
\<close>

definition mate_start :: sboard where
  "mate_start =
     \<lparr> sb_pieces = [(0, pc ROOK WHITE), (46, pc KING WHITE), (62, pc KING BLACK)],
       sb_turn = WHITE, sb_move_stack = [], sb_stack = [] \<rparr>"

definition mate_chess :: "sboard adapter" where
  "mate_chess =
     table_chess
       [([mv 0 56], [], True, True),
        ([mv 0 48], [mv 62 63, mv 62 61], False, False)]
       []"

text \<open>
  White Ke1 and Ng1, black Ke8, white to move. After Ng1-f3 (6 to 21) black is not in
  check and has Kf8, Kd8, Kf7, Ke7, Kd7.
\<close>

definition knight_start :: sboard where
  "knight_start =
     \<lparr> sb_pieces = [(4, pc KING WHITE), (6, pc KNIGHT WHITE), (60, pc KING BLACK)],
       sb_turn = WHITE, sb_move_stack = [], sb_stack = [] \<rparr>"

definition knight_chess :: "sboard adapter" where
  "knight_chess =
     table_chess
       [([mv 6 21], [mv 60 61, mv 60 59, mv 60 53, mv 60 52, mv 60 51], False, False)]
       []"

text \<open>
  White Ke1, black Ke8 and Ra8, black to move. After Ra8-b8 (56 to 57) white is not in
  check and has Kf2, Ke2, Kd2, Kf1, Kd1.
\<close>

definition rook_start :: sboard where
  "rook_start =
     \<lparr> sb_pieces = [(4, pc KING WHITE), (56, pc ROOK BLACK), (60, pc KING BLACK)],
       sb_turn = BLACK, sb_move_stack = [], sb_stack = [] \<rparr>"

definition rook_chess :: "sboard adapter" where
  "rook_chess =
     table_chess
       [([mv 56 57], [mv 4 13, mv 4 12, mv 4 11, mv 4 5, mv 4 3], False, False)]
       []"

text \<open>
  White Ke1 and Ra1, black Ke8 and Ra8, black to move. Ra8xa1 (56 to 0) takes the rook and
  gives check; white is not mated and has Kf2, Ke2, Kd2.
\<close>

definition capture_start :: sboard where
  "capture_start =
     \<lparr> sb_pieces = [(0, pc ROOK WHITE), (4, pc KING WHITE), (56, pc ROOK BLACK),
                     (60, pc KING BLACK)],
       sb_turn = BLACK, sb_move_stack = [], sb_stack = [] \<rparr>"

definition capture_chess :: "sboard adapter" where
  "capture_chess =
     table_chess [([mv 56 0], [mv 4 13, mv 4 12, mv 4 11], True, False)] []"

text \<open>The draw that makes \<^verbatim>\<open>random.uniform(-5, 5)\<close> return 0: \<^verbatim>\<open>random()\<close> = 1/2.\<close>

definition half_draw :: nat where
  "half_draw = 2 ^ 52"

section \<open>Properties\<close>

subsection \<open>The random generator\<close>

lemma randbelow_less: "0 < n \<Longrightarrow> fst (randbelow n g) < n"
  by (simp add: randbelow_def split: list.splits)

lemma mset_shuffle_from: "k < length xs \<Longrightarrow> mset (fst (shuffle_from k xs g)) = mset xs"
proof (induction k arbitrary: xs g)
  case 0
  show ?case by simp
next
  case (Suc k)
  obtain j g' where r: "randbelow (Suc k + 1) g = (j, g')"
    by (cases "randbelow (Suc k + 1) g")
  have "fst (randbelow (Suc k + 1) g) < Suc k + 1"
    by (rule randbelow_less) simp
  with r Suc.prems have j: "j < length xs" by simp
  let ?ys = "xs[Suc k := xs ! j, j := xs ! Suc k]"
  have "mset ?ys = mset xs"
    using mset_swap [OF j Suc.prems] .
  moreover have "mset (fst (shuffle_from k ?ys g')) = mset ?ys"
    using Suc.prems by (intro Suc.IH) simp
  ultimately show ?case using r by simp
qed

lemma mset_shuffle: "mset (fst (shuffle xs g)) = mset xs"
proof (cases xs)
  case Nil
  then show ?thesis by (simp add: shuffle_def)
next
  case (Cons x rest)
  then show ?thesis unfolding shuffle_def by (intro mset_shuffle_from) simp
qed

lemma choice_in:
  "xs \<noteq> [] \<Longrightarrow>
   choice xs g = (Inr (xs ! fst (randbelow (length xs) g)), snd (randbelow (length xs) g))
   \<and> fst (randbelow (length xs) g) < length xs"
  by (simp add: choice_def randbelow_less split: prod.splits)

lemma uniform_half: "uniform (- 5) 5 (half_draw # g) = (0, g)"
  by (simp add: uniform_def random_unit_def half_draw_def)

subsection \<open>The small board\<close>

lemma sb_pop_push: "sb_pop (sb_push b m) = b"
  by (simp add: sb_pop_def sb_push_def Let_def)

lemma sb_push_stack: "sb_move_stack (sb_push b m) = sb_move_stack b @ [m]"
  by (simp add: sb_push_def Let_def)

lemma sb_turn_push: "sb_turn (sb_push b m) = opposite (sb_turn b)"
  by (simp add: sb_push_def Let_def)

lemma table_chess_sel:
  "legal_moves (table_chess rules san) b =
     (case map_of rules (sb_move_stack b) of None \<Rightarrow> [] | Some (lm, chk, mate) \<Rightarrow> lm)"
  "is_check (table_chess rules san) b =
     (case map_of rules (sb_move_stack b) of None \<Rightarrow> False | Some (lm, chk, mate) \<Rightarrow> chk)"
  "is_checkmate (table_chess rules san) b =
     (case map_of rules (sb_move_stack b) of None \<Rightarrow> False | Some (lm, chk, mate) \<Rightarrow> mate)"
  "push (table_chess rules san) = sb_push"
  "pop (table_chess rules san) = sb_pop"
  "piece_at (table_chess rules san) = sb_piece_at"
  "turn (table_chess rules san) = sb_turn"
  "move_stack (table_chess rules san) = sb_move_stack"
  by (simp_all add: table_chess_def)

lemma squares_rev:
  "rev [0..<64] =
     [63, 62, 61, 60, 59, 58, 57, 56, 55, 54, 53, 52, 51, 50, 49, 48,
      47, 46, 45, 44, 43, 42, 41, 40, 39, 38, 37, 36, 35, 34, 33, 32,
      31, 30, 29, 28, 27, 26, 25, 24, 23, 22, 21, 20, 19, 18, 17, 16,
      15, 14, 13, 12, 11, 10, 9, 8, 7, 6, 5, 4, 3, 2, 1, 0 :: nat]"
  by code_simp

lemma piece_map_rook:
  "piece_map rook_chess (push rook_chess rook_start (mv 56 57))
     = [(60, pc KING BLACK), (57, pc ROOK BLACK), (4, pc KING WHITE)]"
  by (simp add: piece_map_def squares_rev rook_chess_def table_chess_def sb_push_def
        sb_piece_at_def rook_start_def mv_def)

lemma piece_map_knight:
  "piece_map knight_chess (push knight_chess knight_start (mv 6 21))
     = [(60, pc KING BLACK), (21, pc KNIGHT WHITE), (4, pc KING WHITE)]"
  by (simp add: piece_map_def squares_rev knight_chess_def table_chess_def sb_push_def
        sb_piece_at_def knight_start_def mv_def)

lemma knight_after:
  "\<not> is_checkmate knight_chess (push knight_chess knight_start (mv 6 21))"
  "\<not> is_check knight_chess (push knight_chess knight_start (mv 6 21))"
  "length (legal_moves knight_chess (push knight_chess knight_start (mv 6 21))) = 5"
  "piece_at knight_chess (push knight_chess knight_start (mv 6 21)) 21 = Some (pc KNIGHT WHITE)"
  "piece_at knight_chess (push knight_chess knight_start (mv 6 21)) 6 = None"
  "turn knight_chess (push knight_chess knight_start (mv 6 21)) = BLACK"
  by (simp_all add: knight_chess_def table_chess_def sb_push_def sb_piece_at_def
        knight_start_def mv_def opposite_def)

subsection \<open>The evaluator of an engine built by \<open>init\<close>\<close>

text \<open>
  With the weight table of \<open>__init__\<close> no lookup raises: each block adds a fixed
  amount when its test holds. Only the queen, bishop and knight have a capture weight;
  the other pieces fall to \<^verbatim>\<open>capture_value * 5\<close>.
\<close>

lemma try_bind_Inr [simp]: "try_bind (Inr v) f = f v"
  by (simp add: try_bind_def)

lemma try_bind_Inl [simp]: "try_bind (Inl e) f = Inl e"
  by (simp add: try_bind_def)

lemma weight_init:
  "weight (init d) ''check'' = Inr (8 / 10)"
  "weight (init d) ''checkmate'' = Inr 1"
  "weight (init d) ''development'' = Inr (8 / 10)"
  "weight (init d) ''center_control'' = Inr (7 / 10)"
  "weight (init d) ''castling'' = Inr (6 / 10)"
  "weight (init d) ''aggression'' = Inr (9 / 10)"
  by (simp_all add: weight_def init_def)

lemma fields_init [simp]:
  "difficulty (init d) = d" "time_limit (init d) = 1 / 10"
  by (simp_all add: init_def)

lemma check_bonus_init:
  "check_bonus A (init d) b = Inr (if is_check A b then 40 else 0)"
  by (simp add: check_bonus_def weight_init)

lemma capture_bonus_init:
  "capture_bonus A (init d) b m =
     Inr (case piece_at A b (to_square m) of
            None \<Rightarrow> 0
          | Some p \<Rightarrow>
              (case piece_type p of
                 PAWN \<Rightarrow> 5 | KNIGHT \<Rightarrow> 21 | BISHOP \<Rightarrow> 21 | ROOK \<Rightarrow> 25 | QUEEN \<Rightarrow> 81
               | KING \<Rightarrow> 0))"
  by (simp add: capture_bonus_def init_def get_piece_value_def get_piece_type_def
           split: option.splits piece_type.splits)

lemma development_bonus_init:
  "development_bonus A (init d) b m = Inr (if is_development_move A b m then 12 else 0)"
  by (simp add: development_bonus_def weight_init)

lemma center_bonus_init:
  "center_bonus (init d) m = Inr (if controls_center (to_square m) then 7 else 0)"
  by (simp add: center_bonus_def weight_init)

lemma castling_bonus_init:
  "castling_bonus (init d) m =
     Inr (if from_square m \<in> set [E1, E8] \<and> to_square m \<in> set [G1, C1, G8, C8] then 12 else 0)"
  by (simp add: castling_bonus_def weight_init)

lemma aggression_bonus_init:
  "aggression_bonus A (init d) b m = Inr (if is_aggressive_move A b m then 54 / 5 else 0)"
  by (simp add: aggression_bonus_def weight_init)

lemmas bonus_init =
  check_bonus_init capture_bonus_init development_bonus_init center_bonus_init
  castling_bonus_init aggression_bonus_init

lemma score_terms_init:
  "score_terms A (init d) b m =
     Inr (0 + (if is_check A b then 40 else 0)
            + (case piece_at A b (to_square m) of
                 None \<Rightarrow> 0
               | Some p \<Rightarrow>
                   (case piece_type p of
                      PAWN \<Rightarrow> 5 | KNIGHT \<Rightarrow> 21 | BISHOP \<Rightarrow> 21 | ROOK \<Rightarrow> 25 | QUEEN \<Rightarrow> 81
                    | KING \<Rightarrow> 0))
            + (if is_development_move A b m then 12 else 0)
            + (if controls_center (to_square m) then 7 else 0)
            + (if from_square m \<in> set [E1, E8] \<and> to_square m \<in> set [G1, C1, G8, C8]
               then 12 else 0)
            + (if is_aggressive_move A b m then 54 / 5 else 0)
            + queen_bonus A b m + evaluate_material A b + evaluate_position A b)"
  unfolding score_terms_def bonus_init try_bind_Inr ..

lemma evaluate_move_init_mate:
  "is_checkmate A (push A b m) \<Longrightarrow>
   evaluate_move A (init d) b m g = (Inr (1000 + 1 * 100), pop A (push A b m), g)"
  by (simp add: evaluate_move_def weight_init)

lemma evaluate_move_init_other:
  "\<not> is_checkmate A (push A b m) \<Longrightarrow>
   evaluate_move A (init d) b m g =
     (Inr (projr (score_terms A (init d) (push A b m) m)
             + fst (uniform (- 5) 5 g) * real_of_int (11 - d)),
      pop A (push A b m), snd (uniform (- 5) 5 g))"
proof -
  assume n: "\<not> is_checkmate A (push A b m)"
  obtain s where st: "score_terms A (init d) (push A b m) m = Inr s"
    by (simp add: score_terms_init)
  show ?thesis using n st by (simp add: evaluate_move_def Let_def split: prod.splits)
qed

lemma evaluate_move_init_Inr:
  "\<exists>s b' g'. evaluate_move A (init d) b m g = (Inr s, b', g')"
  by (cases "is_checkmate A (push A b m)")
     (simp_all add: evaluate_move_init_mate evaluate_move_init_other)

text \<open>
  Bounds: the board has 64 squares and no piece is worth more than 9, so the material
  balance is at most 576.
\<close>

lemma length_concat_le:
  "(\<And>x. length (f x) \<le> 1) \<Longrightarrow> length (concat (map f xs)) \<le> length xs"
proof (induction xs)
  case Nil
  show ?case by simp
next
  case (Cons x xs)
  have "length (f x) \<le> 1" by (rule Cons.prems)
  moreover have "length (concat (map f xs)) \<le> length xs"
    using Cons.prems by (intro Cons.IH)
  ultimately show ?case by simp
qed

lemma length_piece_map: "length (piece_map A b) \<le> 64"
proof -
  have "length (piece_map A b) \<le> length (rev [0..<64])"
    unfolding piece_map_def by (rule length_concat_le) (simp split: option.splits)
  then show ?thesis by simp
qed

lemma get_piece_value_range: "0 \<le> get_piece_value p \<and> get_piece_value p \<le> 9"
  by (simp add: get_piece_value_def split: piece_type.splits)

lemma material_loop_le: "material_loop xs acc \<le> acc + 9 * int (length xs)"
proof (induction xs arbitrary: acc)
  case Nil
  show ?case by simp
next
  case (Cons x xs)
  obtain sq p where x: "x = (sq, p)" by (cases x)
  have v: "0 \<le> get_piece_value p \<and> get_piece_value p \<le> 9"
    by (rule get_piece_value_range)
  show ?case
  proof (cases "color p = WHITE")
    case True
    have "material_loop xs (acc + get_piece_value p)
            \<le> acc + get_piece_value p + 9 * int (length xs)"
      by (rule Cons.IH)
    with v True x show ?thesis by (simp add: Let_def)
  next
    case False
    have "material_loop xs (acc - get_piece_value p)
            \<le> acc - get_piece_value p + 9 * int (length xs)"
      by (rule Cons.IH)
    with v False x show ?thesis by (simp add: Let_def)
  qed
qed

lemma evaluate_material_le: "evaluate_material A b \<le> 576"
proof -
  have "material_loop (piece_map A b) 0 \<le> 0 + 9 * int (length (piece_map A b))"
    by (rule material_loop_le)
  also have "\<dots> \<le> 576" using length_piece_map [of A b] by simp
  finally have "material_loop (piece_map A b) 0 \<le> 576" .
  then show ?thesis unfolding evaluate_material_def by linarith
qed

lemma queen_bonus_le: "queen_bonus A b m \<le> 13"
  by (simp add: queen_bonus_def split: option.splits)

lemma score_terms_init_less:
  assumes n: "length (legal_moves A b) \<le> 696"
  shows "\<exists>s. score_terms A (init d) b m = Inr s \<and> s < 1100"
proof -
  have pos: "(if is_check A b then 40 else 0) + evaluate_position A b \<le> 388"
    using n by (simp add: evaluate_position_def Let_def)
  have cap: "(case piece_at A b (to_square m) of
                None \<Rightarrow> 0
              | Some p \<Rightarrow>
                  (case piece_type p of
                     PAWN \<Rightarrow> 5 | KNIGHT \<Rightarrow> 21 | BISHOP \<Rightarrow> 21 | ROOK \<Rightarrow> 25 | QUEEN \<Rightarrow> 81
                   | KING \<Rightarrow> 0)) \<le> (81 :: real)"
    by (simp split: option.splits piece_type.splits)
  have dev: "(if is_development_move A b m then 12 else 0) \<le> (12 :: real)" by simp
  have cen: "(if controls_center (to_square m) then 7 else 0) \<le> (7 :: real)" by simp
  have cas: "(if from_square m \<in> set [E1, E8] \<and> to_square m \<in> set [G1, C1, G8, C8]
              then 12 else 0) \<le> (12 :: real)" by simp
  have agg: "(if is_aggressive_move A b m then 54 / 5 else 0) \<le> (54 / 5 :: real)" by simp
  note qb = queen_bonus_le [of A b m]
  note mat = evaluate_material_le [of A b]
  define s where "s = 0 + (if is_check A b then 40 else 0)
            + (case piece_at A b (to_square m) of
                 None \<Rightarrow> 0
               | Some p \<Rightarrow>
                   (case piece_type p of
                      PAWN \<Rightarrow> 5 | KNIGHT \<Rightarrow> 21 | BISHOP \<Rightarrow> 21 | ROOK \<Rightarrow> 25 | QUEEN \<Rightarrow> 81
                    | KING \<Rightarrow> 0))
            + (if is_development_move A b m then 12 else 0)
            + (if controls_center (to_square m) then 7 else 0)
            + (if from_square m \<in> set [E1, E8] \<and> to_square m \<in> set [G1, C1, G8, C8]
               then 12 else 0)
            + (if is_aggressive_move A b m then 54 / 5 else 0)
            + queen_bonus A b m + evaluate_material A b + evaluate_position A b"
  have st: "score_terms A (init d) b m = Inr s"
    unfolding score_terms_init s_def by (rule refl)
  have "s < 1100"
    unfolding s_def using pos cap dev cen cas agg qb mat by linarith
  with st show ?thesis by blast
qed

lemma material_loop_sum:
  "material_loop xs acc =
     acc + sum_list (map (\<lambda>(sq, p). if color p = WHITE then get_piece_value p
                                     else - get_piece_value p) xs)"
  by (induction xs arbitrary: acc) (auto simp add: Let_def)

subsection \<open>Ranking and selection\<close>

lemma mset_add_randomness: "mset (fst (add_randomness self xs g)) = mset xs"
proof (cases "difficulty self \<ge> 9")
  case True
  then show ?thesis by (simp add: add_randomness_def)
next
  case False
  obtain shuffled g' where s: "shuffle (take (min 5 (length xs)) xs) g = (shuffled, g')"
    by (cases "shuffle (take (min 5 (length xs)) xs) g")
  have top: "mset shuffled = mset (take (min 5 (length xs)) xs)"
    using mset_shuffle [of "take (min 5 (length xs)) xs" g] s by simp
  show ?thesis
  proof (cases "length xs > 5")
    case True
    have "mset (take 5 xs) + mset (drop 5 xs) = mset xs"
      by (simp flip: mset_append)
    with True top have "mset shuffled + mset (drop 5 xs) = mset xs"
      by (simp add: min_def)
    with True False s show ?thesis by (simp add: add_randomness_def)
  next
    case short: False
    then have "mset shuffled = mset xs" using top by (simp add: min_def)
    with short False s show ?thesis by (simp add: add_randomness_def)
  qed
qed

lemma mset_randomize_step: "mset (fst (randomize_step self xs g)) = mset xs"
  by (simp add: randomize_step_def mset_add_randomness)

lemma add_randomness_low:
  "difficulty self < 9 \<Longrightarrow>
   add_randomness self xs g =
     (case shuffle (take 5 xs) g of (shuffled, g') \<Rightarrow> (shuffled @ drop 5 xs, g'))"
  by (cases "length xs > 5") (simp_all add: add_randomness_def min_def split: prod.splits)

lemma score_loop_init:
  "\<exists>scored b' g'. score_loop A (init d) ms b g acc = (Inr scored, b', g')
      \<and> map snd scored = map snd acc @ ms"
proof (induction ms arbitrary: b g acc)
  case Nil
  show ?case by simp
next
  case (Cons m ms)
  obtain s b1 g1 where e: "evaluate_move A (init d) b m g = (Inr s, b1, g1)"
    using evaluate_move_init_Inr [of A d b m g] by auto
  from Cons.IH [of b1 g1 "acc @ [(s, m)]"] e show ?case by simp
qed

lemma rank_moves_init:
  "\<exists>ranked b' g'. rank_moves A (init d) b legal g = (Inr ranked, b', g')
      \<and> mset (map snd ranked) = mset legal"
proof -
  obtain scored b1 g1 where s: "score_loop A (init d) legal b g [] = (Inr scored, b1, g1)"
    and m: "map snd scored = legal"
    using score_loop_init [of A d legal b g "[]"] by auto
  let ?sorted = "sort_key (\<lambda>x. - fst x) scored"
  obtain ranked g2 where r: "randomize_step (init d) ?sorted g1 = (ranked, g2)"
    by (cases "randomize_step (init d) ?sorted g1")
  have "mset ranked = mset scored"
    using mset_randomize_step [of "init d" ?sorted g1] r by simp
  then have "mset (map snd ranked) = mset (map snd scored)"
    by (metis mset_map)
  with s r m show ?thesis by (simp add: rank_moves_def)
qed

lemma ranked_init:
  assumes "legal \<noteq> []"
  shows "\<exists>ranked b' g'. rank_moves A (init d) b legal g = (Inr ranked, b', g')
            \<and> ranked \<noteq> [] \<and> snd (hd ranked) \<in> set legal"
proof -
  obtain ranked b' g' where r: "rank_moves A (init d) b legal g = (Inr ranked, b', g')"
    and m: "mset (map snd ranked) = mset legal"
    using rank_moves_init [of A d b legal g] by auto
  from m assms have ne: "ranked \<noteq> []" by auto
  from m have "set (map snd ranked) = set legal" by (rule mset_eq_setD)
  with ne have "snd (hd ranked) \<in> set legal"
    by (metis hd_in_set hd_map map_is_Nil_conv)
  with r ne show ?thesis by simp
qed

lemma get_opening_move_init:
  "fst (get_opening_move A (init d) b g) = Inr None \<or>
   (\<exists>m s. fst (get_opening_move A (init d) b g) = Inr (Some m) \<and> parse_san A b s = Some m)"
proof -
  define key where "key = (if turn A b = WHITE then ''white'' else ''black'')"
  obtain openings where rep: "map_of (opening_repertoire (init d)) key = Some openings"
    and ne: "openings \<noteq> []"
    by (cases "turn A b = WHITE") (simp_all add: key_def init_def)
  obtain chosen g' where c: "choice openings g = (Inr chosen, g')"
    using choice_in [OF ne, of g] by simp
  show ?thesis
    using rep c unfolding get_opening_move_def Let_def key_def [symmetric]
    by (auto split: option.splits)
qed

lemma get_move_fallthrough:
  "get_opening_move A self board g = (Inr om, g1) \<Longrightarrow>
   \<not> (case om of None \<Rightarrow> False | Some m \<Rightarrow> move_truthy m) \<Longrightarrow>
   rank_moves A self board (legal_moves A board) g1 = (Inr ranked, board', g2) \<Longrightarrow>
   legal_moves A board \<noteq> [] \<Longrightarrow> ranked \<noteq> [] \<Longrightarrow>
   get_move A self board g start_time now =
     (if now - start_time > time_limit self
      then (Inr (Some (legal_moves A board ! fst (randbelow (length (legal_moves A board)) g2))),
            board', snd (randbelow (length (legal_moves A board)) g2))
      else (Inr (Some (snd (hd ranked))), board', g2))"
  by (cases ranked) (auto simp add: get_move_def Let_def choice_in split: prod.splits)

lemma get_move_no_moves:
  "get_opening_move A self board g = (Inr om, g1) \<Longrightarrow>
   \<not> (case om of None \<Rightarrow> False | Some m \<Rightarrow> move_truthy m) \<Longrightarrow>
   legal_moves A board = [] \<Longrightarrow>
   get_move A self board g start_time now = (Inr None, board, g1)"
  by (simp add: get_move_def)

lemma get_move_opening:
  "get_opening_move A self board g = (Inr (Some m), g1) \<Longrightarrow> move_truthy m \<Longrightarrow>
   get_move A self board g start_time now = (Inr (Some m), board, g1)"
  by (simp add: get_move_def)

subsection \<open>The example positions, evaluated\<close>

lemma material_for_white: "evaluate_material A b = material_for A b WHITE"
  by (simp add: evaluate_material_def material_for_def material_loop_sum)

lemma piece_map_capture_before:
  "piece_map capture_chess capture_start
     = [(60, pc KING BLACK), (56, pc ROOK BLACK), (4, pc KING WHITE), (0, pc ROOK WHITE)]"
  by (simp add: piece_map_def squares_rev capture_chess_def table_chess_sel
        sb_piece_at_def capture_start_def)

lemma piece_map_capture_after:
  "piece_map capture_chess (push capture_chess capture_start (mv 56 0))
     = [(60, pc KING BLACK), (4, pc KING WHITE), (0, pc ROOK BLACK)]"
  by (simp add: piece_map_def squares_rev capture_chess_def table_chess_sel sb_push_def
        sb_piece_at_def capture_start_def mv_def)

lemma capture_after:
  "\<not> is_checkmate capture_chess (push capture_chess capture_start (mv 56 0))"
  "is_check capture_chess (push capture_chess capture_start (mv 56 0))"
  "length (legal_moves capture_chess (push capture_chess capture_start (mv 56 0))) = 3"
  "piece_at capture_chess (push capture_chess capture_start (mv 56 0)) 0 = Some (pc ROOK BLACK)"
  "piece_at capture_chess (push capture_chess capture_start (mv 56 0)) 56 = None"
  "turn capture_chess (push capture_chess capture_start (mv 56 0)) = WHITE"
  by (simp_all add: capture_chess_def table_chess_sel sb_push_stack sb_turn_push
        sb_push_def sb_piece_at_def capture_start_def mv_def opposite_def)

lemma uniform_zero: "uniform (- 5) 5 (0 # g) = (- 5, g)"
  by (simp add: uniform_def random_unit_def)

lemma piece_map_kings:
  "piece_map kings_chess (push kings_chess kings_start (mv 0 9))
     = [(63, pc KING BLACK), (9, pc KING WHITE)]"
  "piece_map kings_chess (push kings_chess kings_start (mv 0 8))
     = [(63, pc KING BLACK), (8, pc KING WHITE)]"
  "piece_map kings_chess (push kings_chess kings_start (mv 0 1))
     = [(63, pc KING BLACK), (1, pc KING WHITE)]"
  by (simp_all add: piece_map_def squares_rev kings_chess_def table_chess_sel sb_push_def
        sb_piece_at_def kings_start_def mv_def Let_def)

lemma material_kings:
  "evaluate_material kings_chess (push kings_chess kings_start (mv 0 9)) = 0"
  "evaluate_material kings_chess (push kings_chess kings_start (mv 0 8)) = 0"
  "evaluate_material kings_chess (push kings_chess kings_start (mv 0 1)) = 0"
  unfolding evaluate_material_def piece_map_kings
  by (simp_all add: pc_def get_piece_value_def)

lemma kings_after:
  "\<not> is_checkmate kings_chess (push kings_chess kings_start (mv 0 t))"
  "t \<in> set [9, 8, 1] \<Longrightarrow> \<not> is_check kings_chess (push kings_chess kings_start (mv 0 t))"
  "t \<in> set [9, 8, 1] \<Longrightarrow>
     length (legal_moves kings_chess (push kings_chess kings_start (mv 0 t))) = 3"
  "turn kings_chess (push kings_chess kings_start (mv 0 t)) = BLACK"
  "pop kings_chess (push kings_chess kings_start (mv 0 t)) = kings_start"
  by (auto simp add: kings_chess_def kings_rules_def table_chess_sel sb_push_stack
        sb_turn_push sb_pop_push kings_start_def mv_def opposite_def)

lemma kings_squares:
  "piece_at kings_chess (push kings_chess kings_start (mv 0 9)) 9 = Some (pc KING WHITE)"
  "piece_at kings_chess (push kings_chess kings_start (mv 0 8)) 8 = Some (pc KING WHITE)"
  "piece_at kings_chess (push kings_chess kings_start (mv 0 1)) 1 = Some (pc KING WHITE)"
  "piece_at kings_chess (push kings_chess kings_start (mv 0 9)) 0 = None"
  "piece_at kings_chess (push kings_chess kings_start (mv 0 8)) 0 = None"
  "piece_at kings_chess (push kings_chess kings_start (mv 0 1)) 0 = None"
  by (simp_all add: kings_chess_def table_chess_sel sb_push_def sb_piece_at_def
        kings_start_def mv_def Let_def)

lemma evaluate_move_kings:
  assumes t: "t \<in> set [9, 8, 1]"
  shows "evaluate_move kings_chess (init d) kings_start (mv 0 t) g =
           (Inr (23 / 2 + fst (uniform (- 5) 5 g) * real_of_int (11 - d)), kings_start,
            snd (uniform (- 5) 5 g))"
proof -
  let ?b = "push kings_chess kings_start (mv 0 t)"
  have sq: "to_square (mv 0 t) = t" "from_square (mv 0 t) = 0"
    by (simp_all add: mv_def)
  have mat: "evaluate_material kings_chess ?b = 0"
    using t material_kings by auto
  have pos: "evaluate_position kings_chess ?b = 10 + 3 / 2"
    using t by (simp add: evaluate_position_def kings_after)
  have at: "piece_at kings_chess ?b t = Some (pc KING WHITE)" "piece_at kings_chess ?b 0 = None"
    using t kings_squares by auto
  have geo: "\<not> controls_center t" "\<not> square_rank t < square_rank 0"
    using t by (auto simp add: controls_center_def square_rank_def D4_def E4_def D5_def E5_def)
  have st: "score_terms kings_chess (init d) ?b (mv 0 t) = Inr (23 / 2)"
    unfolding score_terms_init sq mat pos at
    using t geo
    by (simp add: pc_def is_development_move_def is_aggressive_move_def queen_bonus_def
          kings_after sq at E1_def E8_def)
  show ?thesis
    by (simp add: evaluate_move_init_other kings_after st)
qed

lemma legal_kings: "legal_moves kings_chess kings_start = [mv 0 9, mv 0 8, mv 0 1]"
  by (simp add: kings_chess_def kings_rules_def table_chess_sel kings_start_def)

lemma score_loop_kings:
  "score_loop kings_chess (init 8) (legal_moves kings_chess kings_start) kings_start
     [half_draw, 0, 0, 0, 0] []
   = (Inr [(23 / 2, mv 0 9), (- (7 / 2), mv 0 8), (- (7 / 2), mv 0 1)], kings_start, [0, 0])"
proof -
  have e1: "evaluate_move kings_chess (init 8) kings_start (mv 0 9) [half_draw, 0, 0, 0, 0]
              = (Inr (23 / 2), kings_start, [0, 0, 0, 0])"
    by (simp add: evaluate_move_kings uniform_half)
  have e2: "evaluate_move kings_chess (init 8) kings_start (mv 0 8) [0, 0, 0, 0]
              = (Inr (- (7 / 2)), kings_start, [0, 0, 0])"
    by (simp add: evaluate_move_kings uniform_zero)
  have e3: "evaluate_move kings_chess (init 8) kings_start (mv 0 1) [0, 0, 0]
              = (Inr (- (7 / 2)), kings_start, [0, 0])"
    by (simp add: evaluate_move_kings uniform_zero del: One_nat_def)
  show ?thesis
    unfolding legal_kings by (simp add: e1 e2 e3 del: One_nat_def)
qed

lemma opening_kings:
  "get_opening_move kings_chess (init d) kings_start (0 # g) = (Inr None, g)"
  by (simp add: get_opening_move_def init_def choice_def randbelow_def kings_chess_def
        table_chess_def kings_san_def kings_start_def)

section \<open>The claims\<close>

text \<open>
  C1. Let \<open>parse_san\<close> return only legal moves of the position (the null move, which
  \<open>get_move\<close> discards, aside), as python-chess does. Then for an engine built with a
  difficulty from 1 to 10, whatever the random draws and the clock: on a position with a
  legal move \<open>get_move\<close> returns one of its legal moves, and on a position without one it
  returns \<open>None\<close>. In both cases it returns: the result is never an exception.
\<close>

theorem get_move_returns_legal_move:
  assumes san: "\<And>s m. parse_san A board s = Some m \<Longrightarrow> move_truthy m
                    \<Longrightarrow> m \<in> set (legal_moves A board)"
      and d: "1 \<le> d" "d \<le> 10"
  shows "(legal_moves A board \<noteq> [] \<longrightarrow>
            (\<exists>m. fst (get_move A (init d) board g start_time now) = Inr (Some m)
                  \<and> m \<in> set (legal_moves A board))) \<and>
         (legal_moves A board = [] \<longrightarrow>
            fst (get_move A (init d) board g start_time now) = Inr None)"
proof -
  obtain r g1 where o: "get_opening_move A (init d) board g = (r, g1)"
    by (cases "get_opening_move A (init d) board g")
  from get_opening_move_init [of A d board g] o
  obtain om where r: "r = Inr om"
    and p: "\<And>m. om = Some m \<Longrightarrow> \<exists>s. parse_san A board s = Some m"
    by auto
  show ?thesis
  proof (cases "case om of None \<Rightarrow> False | Some m \<Rightarrow> move_truthy m")
    case True
    then obtain m where m: "om = Some m" "move_truthy m"
      by (cases om) simp_all
    with p san have "m \<in> set (legal_moves A board)" by blast
    moreover have "get_move A (init d) board g start_time now = (Inr (Some m), board, g1)"
      using o r m by (simp add: get_move_opening)
    ultimately show ?thesis by auto
  next
    case False
    show ?thesis
    proof (cases "legal_moves A board = []")
      case True
      with o r False show ?thesis by (simp add: get_move_no_moves)
    next
      case ne: False
      obtain ranked b' g2 where
        rk: "rank_moves A (init d) board (legal_moves A board) g1 = (Inr ranked, b', g2)"
        and rne: "ranked \<noteq> []" and hd: "snd (hd ranked) \<in> set (legal_moves A board)"
        using ranked_init [OF ne, of A d board g1] by auto
      have i: "fst (randbelow (length (legal_moves A board)) g2) < length (legal_moves A board)"
        using ne by (simp add: randbelow_less)
      have "get_move A (init d) board g start_time now =
              (if now - start_time > time_limit (init d)
               then (Inr (Some (legal_moves A board
                                  ! fst (randbelow (length (legal_moves A board)) g2))),
                     b', snd (randbelow (length (legal_moves A board)) g2))
               else (Inr (Some (snd (hd ranked))), b', g2))"
        using o r False rk ne rne by (intro get_move_fallthrough) simp_all
      with ne hd i show ?thesis by (simp add: nth_mem)
    qed
  qed
qed

theorem get_move_returns_legal_move_witness:
  "(\<exists>m. fst (get_move kings_chess (init 5) kings_start [] 0 0) = Inr (Some m)
        \<and> m \<in> set (legal_moves kings_chess kings_start)) \<and>
   fst (get_move mate_chess (init 5) (push mate_chess mate_start (mv 0 56)) [] 0 0) = Inr None"
proof -
  have san1: "\<And>s m. parse_san kings_chess kings_start s = Some m \<Longrightarrow> move_truthy m
                 \<Longrightarrow> m \<in> set (legal_moves kings_chess kings_start)"
    by (auto simp add: kings_chess_def table_chess_def split: option.splits if_splits)
  have ne: "legal_moves kings_chess kings_start \<noteq> []"
    by (simp add: kings_chess_def table_chess_def kings_rules_def kings_start_def)
  have san2: "\<And>s m. parse_san mate_chess (push mate_chess mate_start (mv 0 56)) s = Some m
                 \<Longrightarrow> move_truthy m
                 \<Longrightarrow> m \<in> set (legal_moves mate_chess (push mate_chess mate_start (mv 0 56)))"
    by (simp add: mate_chess_def table_chess_def)
  have none: "legal_moves mate_chess (push mate_chess mate_start (mv 0 56)) = []"
    by (simp add: mate_chess_def table_chess_sel sb_push_stack mate_start_def mv_def)
  show ?thesis
    using get_move_returns_legal_move [of kings_chess kings_start 5 "[]" 0 0, OF san1]
          get_move_returns_legal_move
            [of mate_chess "push mate_chess mate_start (mv 0 56)" 5 "[]" 0 0, OF san2]
          ne none
    by simp
qed

text \<open>
  C2. For an engine built by \<open>init\<close>: a move that gives checkmate scores exactly
  1000 + checkmate weight * 100, whatever the draw (the \<^verbatim>\<open>return\<close> skips the perturbation);
  a move that does not, with the perturbation at zero, scores strictly less. The second
  part needs a bound on the mobility term, which comes from the rules: at most 696 legal
  moves in the resulting position (chess has at most 218).
\<close>

theorem checkmate_dominates:
  assumes mate: "is_checkmate A (push A board m1)"
      and other: "\<not> is_checkmate A (push A board m2)"
      and mobility: "length (legal_moves A (push A board m2)) \<le> 696"
      and noise: "fst (uniform (- 5) 5 g2) * real_of_int (11 - d) = 0"
  shows "\<exists>w. weight (init d) ''checkmate'' = Inr w \<and>
             fst (evaluate_move A (init d) board m1 g1) = Inr (1000 + w * 100) \<and>
             (\<exists>s. fst (evaluate_move A (init d) board m2 g2) = Inr s \<and> s < 1000 + w * 100)"
proof -
  obtain s where s: "score_terms A (init d) (push A board m2) m2 = Inr s" and b: "s < 1100"
    using score_terms_init_less [OF mobility] by blast
  have "fst (evaluate_move A (init d) board m2 g2) = Inr s"
    using other s noise by (simp add: evaluate_move_init_other)
  moreover have "fst (evaluate_move A (init d) board m1 g1) = Inr (1000 + 1 * 100)"
    using mate by (simp add: evaluate_move_init_mate)
  ultimately show ?thesis using b by (simp add: weight_init)
qed

theorem checkmate_dominates_witness:
  "fst (evaluate_move mate_chess (init 5) mate_start (mv 0 56) []) = Inr 1100 \<and>
   (\<exists>s. fst (evaluate_move mate_chess (init 5) mate_start (mv 0 48) [half_draw]) = Inr s
        \<and> s < 1100)"
proof -
  have mate: "is_checkmate mate_chess (push mate_chess mate_start (mv 0 56))"
    by (simp add: mate_chess_def table_chess_sel sb_push_stack mate_start_def mv_def)
  have other: "\<not> is_checkmate mate_chess (push mate_chess mate_start (mv 0 48))"
    by (simp add: mate_chess_def table_chess_sel sb_push_stack mate_start_def mv_def)
  have mobility: "length (legal_moves mate_chess (push mate_chess mate_start (mv 0 48))) \<le> 696"
    by (simp add: mate_chess_def table_chess_sel sb_push_stack mate_start_def mv_def)
  have noise: "fst (uniform (- 5) 5 [half_draw]) * real_of_int (11 - 5) = 0"
    by (simp add: uniform_half)
  show ?thesis
    using checkmate_dominates [OF mate other mobility noise, of "[]"]
    by (simp add: weight_init)
qed

text \<open>
  C3. Where \<open>pop\<close> undoes \<open>push\<close> on the position and the move, \<open>evaluate_move\<close>
  leaves the board as it found it. This holds for every engine object, so also on the
  checkmate return and when a weight is missing and the scoring raises KeyError.
\<close>

theorem evaluate_move_restores_board:
  "pop A (push A board m) = board \<Longrightarrow> fst (snd (evaluate_move A self board m g)) = board"
  by (simp add: evaluate_move_def Let_def split: sum.splits prod.splits)

theorem evaluate_move_restores_board_witness:
  "pop knight_chess (push knight_chess knight_start (mv 6 21)) = knight_start \<and>
   fst (snd (evaluate_move knight_chess (init 5) knight_start (mv 6 21) [half_draw]))
     = knight_start"
proof -
  have h: "pop knight_chess (push knight_chess knight_start (mv 6 21)) = knight_start"
    by (simp add: knight_chess_def table_chess_def sb_pop_push)
  show ?thesis using h evaluate_move_restores_board [OF h] by simp
qed

text \<open>
  C4 fails on the code. \<open>capture_bonus\<close> reads the destination square after the push,
  where the piece that has just moved stands. With white Ke1, Ng1 and black Ke8, the move
  Ng1-f3 takes nothing (f3 is empty before it) and still gets the knight's capture term
  0.7 * 3 * 10 = 21; its score is 21 + 3 (material) + 10 + 5/2 (position).
\<close>

theorem capture_bonus_on_quiet_move:
  "piece_at knight_chess knight_start (to_square (mv 6 21)) = None \<and>
   capture_bonus knight_chess (init 5) (push knight_chess knight_start (mv 6 21)) (mv 6 21)
     = Inr 21 \<and>
   fst (evaluate_move knight_chess (init 5) knight_start (mv 6 21) [half_draw])
     = Inr (21 + 3 + 10 + 5 / 2)"
proof -
  have a: "piece_at knight_chess knight_start (to_square (mv 6 21)) = None"
    by (simp add: knight_chess_def table_chess_def sb_piece_at_def knight_start_def mv_def)
  have t: "to_square (mv 6 21) = 21" "from_square (mv 6 21) = 6"
    by (simp_all add: mv_def)
  have b: "capture_bonus knight_chess (init 5) (push knight_chess knight_start (mv 6 21))
             (mv 6 21) = Inr 21"
    by (simp add: capture_bonus_init t knight_after pc_def)
  have mat: "evaluate_material knight_chess (push knight_chess knight_start (mv 6 21)) = 3"
    unfolding evaluate_material_def piece_map_knight
    by (simp add: pc_def get_piece_value_def)
  have pos: "evaluate_position knight_chess (push knight_chess knight_start (mv 6 21))
               = 10 + 5 / 2"
    by (simp add: evaluate_position_def knight_after)
  have st: "score_terms knight_chess (init 5) (push knight_chess knight_start (mv 6 21))
              (mv 6 21) = Inr (21 + 3 + 10 + 5 / 2)"
    unfolding score_terms_init mat pos
    by (simp add: t knight_after pc_def is_development_move_def controls_center_def
          is_aggressive_move_def queen_bonus_def square_rank_def
          D4_def E4_def D5_def E5_def E1_def E8_def)
  have c: "fst (evaluate_move knight_chess (init 5) knight_start (mv 6 21) [half_draw])
             = Inr (21 + 3 + 10 + 5 / 2)"
    by (simp add: evaluate_move_init_other knight_after st uniform_half)
  from a b c show ?thesis by blast
qed

text \<open>
  C5 fails on the code. \<open>is_development_move\<close> reads the origin square after the push,
  where nothing stands any more. In the same position the white knight leaves g1, one of
  its initial squares, and the development term is 0.
\<close>

theorem development_bonus_missed:
  "piece_at knight_chess knight_start (from_square (mv 6 21)) = Some (pc KNIGHT WHITE) \<and>
   from_square (mv 6 21) = G1 \<and>
   development_bonus knight_chess (init 5) (push knight_chess knight_start (mv 6 21)) (mv 6 21)
     = Inr 0"
proof -
  have t: "from_square (mv 6 21) = 6" by (simp add: mv_def)
  have a: "piece_at knight_chess knight_start (from_square (mv 6 21)) = Some (pc KNIGHT WHITE)"
    by (simp add: knight_chess_def table_chess_def sb_piece_at_def knight_start_def mv_def)
  have c: "development_bonus knight_chess (init 5) (push knight_chess knight_start (mv 6 21))
             (mv 6 21) = Inr 0"
    by (simp add: development_bonus_init is_development_move_def t knight_after)
  from a c t show ?thesis by (simp add: G1_def)
qed

text \<open>
  C6 fails on the code. \<open>is_aggressive_move\<close> reads \<open>turn\<close> after the push, which is
  the opponent's. White's Ng1-f3 goes up the board and gets no aggression term; white's
  Kg6-g5 (white Kg6, Ra1 and black Kg8) goes down the board and gets 0.9 * 12.
\<close>

theorem aggression_bonus_inverted:
  "turn knight_chess knight_start = WHITE \<and>
   square_rank (from_square (mv 6 21)) < square_rank (to_square (mv 6 21)) \<and>
   aggression_bonus knight_chess (init 5) (push knight_chess knight_start (mv 6 21)) (mv 6 21)
     = Inr 0 \<and>
   turn mate_chess mate_start = WHITE \<and>
   square_rank (to_square (mv 46 38)) < square_rank (from_square (mv 46 38)) \<and>
   aggression_bonus mate_chess (init 5) (push mate_chess mate_start (mv 46 38)) (mv 46 38)
     = Inr (9 / 10 * 12)"
  by (simp add: aggression_bonus_init is_aggressive_move_def square_rank_def mv_def
        knight_chess_def mate_chess_def table_chess_sel sb_turn_push knight_start_def
        mate_start_def opposite_def)

text \<open>
  C7 as the specification states it (the mover's pieces count positively) fails when
  black moves: with white Ke1 and black Ke8, Ra8, after black's Ra8-b8 the code's balance
  is -5 and the mover-relative one is 5.
\<close>

theorem material_counterexample:
  "evaluate_material rook_chess (push rook_chess rook_start (mv 56 57))
     \<noteq> material_for rook_chess (push rook_chess rook_start (mv 56 57))
          (turn rook_chess rook_start)"
proof -
  have t: "turn rook_chess rook_start = BLACK"
    by (simp add: rook_chess_def table_chess_def rook_start_def)
  show ?thesis
    unfolding evaluate_material_def material_for_def piece_map_rook t
    by (simp add: pc_def get_piece_value_def)
qed

text \<open>
  C7, amended. On every move that does not give checkmate (the checkmate return adds no
  term) the score \<open>evaluate_move\<close> returns is the sum of the six weighted bonuses, the
  queen bonus, the positional term, the perturbation and the material balance of the
  board after the move counted for white: white's pieces positively and black's
  negatively, whichever side made the move. In the witness black's Ra8xa1 takes a rook:
  the balance is 0 before the move and the term added is -5.
\<close>

theorem evaluate_move_material_term:
  assumes other: "\<not> is_checkmate A (push A board m)"
  shows "\<exists>s1 s2 s3 s4 s5 s6.
           check_bonus A (init d) (push A board m) = Inr s1 \<and>
           capture_bonus A (init d) (push A board m) m = Inr s2 \<and>
           development_bonus A (init d) (push A board m) m = Inr s3 \<and>
           center_bonus (init d) m = Inr s4 \<and>
           castling_bonus (init d) m = Inr s5 \<and>
           aggression_bonus A (init d) (push A board m) m = Inr s6 \<and>
           fst (evaluate_move A (init d) board m g) =
             Inr (s1 + s2 + s3 + s4 + s5 + s6
                  + queen_bonus A (push A board m) m
                  + material_for A (push A board m) WHITE
                  + evaluate_position A (push A board m)
                  + fst (uniform (- 5) 5 g) * real_of_int (11 - d))"
proof -
  let ?b = "push A board m"
  obtain s1 s2 s3 s4 s5 s6 where
    b: "check_bonus A (init d) ?b = Inr s1" "capture_bonus A (init d) ?b m = Inr s2"
       "development_bonus A (init d) ?b m = Inr s3" "center_bonus (init d) m = Inr s4"
       "castling_bonus (init d) m = Inr s5" "aggression_bonus A (init d) ?b m = Inr s6"
    by (simp add: bonus_init)
  have "score_terms A (init d) ?b m =
          Inr (0 + s1 + s2 + s3 + s4 + s5 + s6 + queen_bonus A ?b m
               + evaluate_material A ?b + evaluate_position A ?b)"
    by (simp add: score_terms_def b)
  then have "fst (evaluate_move A (init d) board m g) =
          Inr (s1 + s2 + s3 + s4 + s5 + s6 + queen_bonus A ?b m
               + material_for A ?b WHITE + evaluate_position A ?b
               + fst (uniform (- 5) 5 g) * real_of_int (11 - d))"
    using other by (simp add: evaluate_move_init_other material_for_white)
  with b show ?thesis by blast
qed

theorem evaluate_move_material_term_witness:
  "\<not> is_checkmate capture_chess (push capture_chess capture_start (mv 56 0)) \<and>
   material_for capture_chess capture_start WHITE = 0 \<and>
   material_for capture_chess (push capture_chess capture_start (mv 56 0)) WHITE = - 5 \<and>
   fst (evaluate_move capture_chess (init 5) capture_start (mv 56 0) [half_draw])
     = Inr (40 + 25 + (- 5) + 3 / 2)"
proof -
  let ?b = "push capture_chess capture_start (mv 56 0)"
  note h = capture_after(1)
  have t: "to_square (mv 56 0) = 0" "from_square (mv 56 0) = 56"
    by (simp_all add: mv_def)
  have m0: "material_for capture_chess capture_start WHITE = 0"
    unfolding material_for_def piece_map_capture_before
    by (simp add: pc_def get_piece_value_def)
  have m1: "material_for capture_chess ?b WHITE = - 5"
    unfolding material_for_def piece_map_capture_after
    by (simp add: pc_def get_piece_value_def)
  have terms:
    "check_bonus capture_chess (init 5) ?b = Inr 40"
    "capture_bonus capture_chess (init 5) ?b (mv 56 0) = Inr 25"
    "development_bonus capture_chess (init 5) ?b (mv 56 0) = Inr 0"
    "center_bonus (init 5) (mv 56 0) = Inr 0"
    "castling_bonus (init 5) (mv 56 0) = Inr 0"
    "aggression_bonus capture_chess (init 5) ?b (mv 56 0) = Inr 0"
    "queen_bonus capture_chess ?b (mv 56 0) = 0"
    "evaluate_position capture_chess ?b = 3 / 2"
    by (simp_all add: bonus_init t capture_after pc_def is_development_move_def
          controls_center_def is_aggressive_move_def queen_bonus_def square_rank_def
          evaluate_position_def D4_def E4_def D5_def E5_def E1_def E8_def)
  show ?thesis
    using evaluate_move_material_term [OF h, of 5 "[half_draw]"] h m0 m1
    by (simp add: terms uniform_half)
qed

text \<open>
  C8 as the specification states it (the step runs exactly below difficulty 9) fails. Bare
  kings, difficulty 8, on time; the draws give Kb2 the score 11.5 and Ka2, Kb1 the score
  -3.5, and would make the shuffle put Ka2 first. \<open>get_move\<close> returns the top-ranked
  Kb2; the policy that randomizes below 9 selects Ka2.
\<close>

theorem get_move_randomize_counterexample:
  "fst (get_move kings_chess (init 8) kings_start [0, half_draw, 0, 0, 0, 0] 0 0)
     = Inr (Some (mv 0 9)) \<and>
   select_spec kings_chess (init 8) kings_start [half_draw, 0, 0, 0, 0] = Inr (mv 0 8)"
proof -
  have r: "rank_moves kings_chess (init 8) kings_start (legal_moves kings_chess kings_start)
             [half_draw, 0, 0, 0, 0]
           = (Inr [(23 / 2, mv 0 9), (- (7 / 2), mv 0 8), (- (7 / 2), mv 0 1)],
              kings_start, [0, 0])"
    unfolding rank_moves_def score_loop_kings
    by (simp add: randomize_step_def)
  have ne: "legal_moves kings_chess kings_start \<noteq> []"
    by (simp add: legal_kings)
  have "get_move kings_chess (init 8) kings_start [0, half_draw, 0, 0, 0, 0] 0 0
          = (Inr (Some (mv 0 9)), kings_start, [0, 0])"
    using get_move_fallthrough [OF opening_kings _ r ne, of 0 0] by simp
  then have a: "fst (get_move kings_chess (init 8) kings_start [0, half_draw, 0, 0, 0, 0] 0 0)
             = Inr (Some (mv 0 9))"
    by simp
  have b: "select_spec kings_chess (init 8) kings_start [half_draw, 0, 0, 0, 0] = Inr (mv 0 8)"
    unfolding select_spec_def score_loop_kings
    by (simp add: randomize_spec_def shuffle_def randbelow_def numeral_2_eq_2)
  from a b show ?thesis by simp
qed

text \<open>
  C8, amended. When \<open>get_move\<close> reaches the selection on time (no opening-book move, a
  legal move, the budget not exceeded), with \<open>scored\<close> the scores of the legal moves: from
  difficulty 7 on it returns the first move of the ranking sorted by score, and the
  generator is as the scoring left it (no shuffle is drawn); below difficulty 7 it returns
  the first move of the ranking whose top five are shuffled by \<^verbatim>\<open>random.shuffle\<close> and
  whose rest is appended unchanged.
\<close>

theorem get_move_randomize_threshold:
  assumes book: "\<And>m. fst (get_opening_move A (init d) board g) = Inr (Some m)
                     \<Longrightarrow> \<not> move_truthy m"
      and ne: "legal_moves A board \<noteq> []"
      and on_time: "\<not> now - start_time > time_limit (init d)"
  shows "\<exists>scored board' g2.
           score_loop A (init d) (legal_moves A board) board
               (snd (get_opening_move A (init d) board g)) [] = (Inr scored, board', g2) \<and>
           (7 \<le> d \<longrightarrow>
              get_move A (init d) board g start_time now =
                (Inr (Some (snd (hd (sort_key (\<lambda>x. - fst x) scored)))), board', g2)) \<and>
           (d < 7 \<longrightarrow>
              get_move A (init d) board g start_time now =
                (case shuffle (take 5 (sort_key (\<lambda>x. - fst x) scored)) g2 of
                   (top_moves, g3) \<Rightarrow>
                     (Inr (Some (snd (hd (top_moves @ drop 5 (sort_key (\<lambda>x. - fst x) scored))))),
                      board', g3)))"
proof -
  obtain r g1 where o: "get_opening_move A (init d) board g = (r, g1)"
    by (cases "get_opening_move A (init d) board g")
  from get_opening_move_init [of A d board g] o
  obtain om where r: "r = Inr om" by auto
  have falsy: "\<not> (case om of None \<Rightarrow> False | Some m \<Rightarrow> move_truthy m)"
    using book o r by (cases om) simp_all
  obtain scored b' g2 where
    sl: "score_loop A (init d) (legal_moves A board) board g1 [] = (Inr scored, b', g2)"
    using score_loop_init [of A d "legal_moves A board" board g1 "[]"] by auto
  let ?sorted = "sort_key (\<lambda>x. - fst x) scored"
  obtain ranked g3 where rs: "randomize_step (init d) ?sorted g2 = (ranked, g3)"
    by (cases "randomize_step (init d) ?sorted g2")
  have rk: "rank_moves A (init d) board (legal_moves A board) g1 = (Inr ranked, b', g3)"
    using sl rs by (simp add: rank_moves_def)
  have rne: "ranked \<noteq> []"
    using ranked_init [OF ne, of A d board g1] rk by auto
  have gm: "get_move A (init d) board g start_time now = (Inr (Some (snd (hd ranked))), b', g3)"
    using get_move_fallthrough [OF _ falsy rk ne rne, of g start_time now] o r on_time
    by simp
  have high: "7 \<le> d \<Longrightarrow> ranked = ?sorted \<and> g3 = g2"
    using rs by (simp add: randomize_step_def)
  have low: "d < 7 \<Longrightarrow>
      (case shuffle (take 5 ?sorted) g2 of (top_moves, g') \<Rightarrow> (top_moves @ drop 5 ?sorted, g'))
        = (ranked, g3)"
    using rs by (simp add: randomize_step_def add_randomness_low)
  have "7 \<le> d \<longrightarrow>
          get_move A (init d) board g start_time now = (Inr (Some (snd (hd ?sorted))), b', g2)"
    using gm high by simp
  moreover have "d < 7 \<longrightarrow>
          get_move A (init d) board g start_time now =
            (case shuffle (take 5 ?sorted) g2 of
               (top_moves, g3) \<Rightarrow> (Inr (Some (snd (hd (top_moves @ drop 5 ?sorted)))), b', g3))"
    using gm low by (auto split: prod.splits)
  ultimately show ?thesis using sl o by auto
qed

theorem get_move_randomize_threshold_witness:
  "(\<exists>scored board' g2.
      score_loop kings_chess (init 8) (legal_moves kings_chess kings_start) kings_start
          (snd (get_opening_move kings_chess (init 8) kings_start [0, half_draw, 0, 0, 0, 0])) []
        = (Inr scored, board', g2) \<and>
      get_move kings_chess (init 8) kings_start [0, half_draw, 0, 0, 0, 0] 0 0 =
        (Inr (Some (snd (hd (sort_key (\<lambda>x. - fst x) scored)))), board', g2)) \<and>
   (\<exists>scored board' g2.
      score_loop kings_chess (init 6) (legal_moves kings_chess kings_start) kings_start
          (snd (get_opening_move kings_chess (init 6) kings_start [0, half_draw, 0, 0, 0, 0])) []
        = (Inr scored, board', g2) \<and>
      get_move kings_chess (init 6) kings_start [0, half_draw, 0, 0, 0, 0] 0 0 =
        (case shuffle (take 5 (sort_key (\<lambda>x. - fst x) scored)) g2 of
           (top_moves, g3) \<Rightarrow>
             (Inr (Some (snd (hd (top_moves @ drop 5 (sort_key (\<lambda>x. - fst x) scored))))),
              board', g3)))"
proof -
  have book: "\<And>d m. fst (get_opening_move kings_chess (init d) kings_start
                             [0, half_draw, 0, 0, 0, 0]) = Inr (Some m)
                 \<Longrightarrow> \<not> move_truthy m"
    by (simp add: opening_kings)
  have ne: "legal_moves kings_chess kings_start \<noteq> []"
    by (simp add: legal_kings)
  have on_time: "\<And>d. \<not> (0 :: real) - 0 > time_limit (init d)"
    by simp
  show ?thesis
    using get_move_randomize_threshold [of kings_chess 8 kings_start
            "[0, half_draw, 0, 0, 0, 0]" 0 0, OF book ne on_time]
          get_move_randomize_threshold [of kings_chess 6 kings_start
            "[0, half_draw, 0, 0, 0, 0]" 0 0, OF book ne on_time]
    by simp
qed

text \<open>
  C9. For an engine built by \<open>init\<close>, when the opening book gives no move, the position
  has a legal move and the clock at line 102 is more than \<open>time_limit\<close> past the start:
  \<open>get_move\<close> returns, without an exception, \<^verbatim>\<open>random.choice(legal_moves)\<close>, the legal
  move at the index the generator draws below their number, and not the head of the
  ranking.
\<close>

theorem get_move_budget_fallback:
  assumes book: "\<And>m. fst (get_opening_move A (init d) board g) = Inr (Some m)
                     \<Longrightarrow> \<not> move_truthy m"
      and ne: "legal_moves A board \<noteq> []"
      and late: "now - start_time > time_limit (init d)"
  shows "\<exists>ranked board' g2 i g3.
           rank_moves A (init d) board (legal_moves A board)
               (snd (get_opening_move A (init d) board g)) = (Inr ranked, board', g2) \<and>
           randbelow (length (legal_moves A board)) g2 = (i, g3) \<and>
           i < length (legal_moves A board) \<and>
           get_move A (init d) board g start_time now
             = (Inr (Some (legal_moves A board ! i)), board', g3)"
proof -
  obtain r g1 where o: "get_opening_move A (init d) board g = (r, g1)"
    by (cases "get_opening_move A (init d) board g")
  from get_opening_move_init [of A d board g] o
  obtain om where r: "r = Inr om" by auto
  have falsy: "\<not> (case om of None \<Rightarrow> False | Some m \<Rightarrow> move_truthy m)"
    using book o r by (cases om) simp_all
  obtain ranked b' g2 where
    rk: "rank_moves A (init d) board (legal_moves A board) g1 = (Inr ranked, b', g2)"
    and rne: "ranked \<noteq> []"
    using ranked_init [OF ne, of A d board g1] by auto
  obtain i g3 where rb: "randbelow (length (legal_moves A board)) g2 = (i, g3)"
    by (cases "randbelow (length (legal_moves A board)) g2")
  have i: "i < length (legal_moves A board)"
    using randbelow_less [of "length (legal_moves A board)" g2] ne rb by simp
  have "get_move A (init d) board g start_time now
          = (Inr (Some (legal_moves A board ! i)), b', g3)"
    using get_move_fallthrough [OF _ falsy rk ne rne, of g start_time now] o r late rb
    by simp
  with rk rb i o show ?thesis by simp
qed

theorem get_move_budget_fallback_witness:
  "\<exists>ranked board' g2 i g3.
     rank_moves kings_chess (init 5) kings_start (legal_moves kings_chess kings_start)
         (snd (get_opening_move kings_chess (init 5) kings_start [])) = (Inr ranked, board', g2) \<and>
     randbelow (length (legal_moves kings_chess kings_start)) g2 = (i, g3) \<and>
     i < length (legal_moves kings_chess kings_start) \<and>
     get_move kings_chess (init 5) kings_start [] 0 1
       = (Inr (Some (legal_moves kings_chess kings_start ! i)), board', g3)"
proof -
  have o: "get_opening_move kings_chess (init 5) kings_start [] = (Inr None, [])"
    by (simp add: get_opening_move_def init_def choice_def randbelow_def kings_chess_def
          table_chess_def kings_san_def kings_start_def)
  have book: "\<And>m. fst (get_opening_move kings_chess (init 5) kings_start []) = Inr (Some m)
                 \<Longrightarrow> \<not> move_truthy m"
    by (simp add: o)
  have ne: "legal_moves kings_chess kings_start \<noteq> []"
    by (simp add: kings_chess_def table_chess_def kings_rules_def kings_start_def)
  have late: "(1 :: real) - 0 > time_limit (init 5)"
    by simp
  show ?thesis
    using get_move_budget_fallback [of kings_chess 5 kings_start "[]" 1 0, OF book ne late]
    by simp
qed

text \<open>
  C10. Whatever the difficulty, the list and the generator, \<open>add_randomness\<close> returns a
  permutation of the scored moves it is given: the multiset of (score, move) pairs is
  unchanged. So a non-empty ranking stays non-empty and its first entry, the one
  \<open>get_move\<close> selects, is one of the scored moves.
\<close>

theorem add_randomness_permutes:
  "mset (fst (add_randomness self scored_moves g)) = mset scored_moves \<and>
   (scored_moves \<noteq> [] \<longrightarrow>
      fst (add_randomness self scored_moves g) \<noteq> [] \<and>
      hd (fst (add_randomness self scored_moves g)) \<in> set scored_moves)"
proof -
  let ?r = "fst (add_randomness self scored_moves g)"
  have m: "mset ?r = mset scored_moves" by (rule mset_add_randomness)
  then have s: "set ?r = set scored_moves" by (rule mset_eq_setD)
  have "scored_moves \<noteq> [] \<Longrightarrow> ?r \<noteq> []" using m by auto
  then show ?thesis using m s by (metis hd_in_set)
qed

theorem add_randomness_permutes_witness:
  "mset (fst (add_randomness (init 5) [(2, mv 0 9), (1, mv 0 8)] [0]))
     = mset [(2, mv 0 9), (1, mv 0 8)] \<and>
   hd (fst (add_randomness (init 5) [(2, mv 0 9), (1, mv 0 8)] [0]))
     \<in> set [(2, mv 0 9), (1, mv 0 8)]"
  using add_randomness_permutes [of "init 5" "[(2, mv 0 9), (1, mv 0 8)]" "[0]"] by simp

end
